theory Spec2Isabelle
  imports Main "HOL-Library.Word"
begin

unbundle bit_operations_syntax

section \<open>Bytes, exceptions and the \<open>struct\<close> little-endian formats\<close>

text \<open>
  A Python \<open>bytes\<close> value is a list of 8-bit words. A Python \<open>str\<close> is a
  \<open>string\<close>; a character above 127 stands for a non-ASCII code point. Python
  integers are unbounded, so the packet fields are \<open>int\<close> and every range check of
  \<open>struct.pack\<close> is a branch of the model.
\<close>

type_synonym byte = "8 word"
type_synonym bytes = "byte list"

datatype error =
    StructError                \<comment> \<open>\<open>struct.error\<close>: value out of range, or buffer too small\<close>
  | UnicodeEncodeError         \<comment> \<open>\<open>str.encode("ascii")\<close> on a non-ASCII character\<close>
  | UnicodeDecodeError         \<comment> \<open>\<open>bytes.decode("ascii")\<close> on a byte above 127\<close>
  | ValueError nat nat         \<comment> \<open>\<open>ValueError("Data too short: {n} < {m}")\<close>\<close>
  | CipherValueError           \<comment> \<open>\<open>ValueError\<close> of the cipher library: wrong key, IV or message length\<close>
  | BSONError string           \<comment> \<open>any exception of the document codec\<close>
  | TimeoutError
  | InvalidStateError
  | IncompleteReadError
  | OSError string
  | ConnectionError string

primrec le_bytes :: "nat \<Rightarrow> nat \<Rightarrow> bytes" where
  "le_bytes 0 v = []"
| "le_bytes (Suc n) v = of_nat (v mod 256) # le_bytes n (v div 256)"

primrec le_nat :: "bytes \<Rightarrow> nat" where
  "le_nat [] = 0"
| "le_nat (b # bs) = unat b + 256 * le_nat bs"

text \<open>\<open>struct.pack\<close> with the formats \<open><I\<close>, \<open><h\<close> and \<open><B\<close>.\<close>

definition pack_I :: "int \<Rightarrow> error + bytes" where
  "pack_I v = (if 0 \<le> v \<and> v < 2 ^ 32 then Inr (le_bytes 4 (nat v)) else Inl StructError)"

definition pack_h :: "int \<Rightarrow> error + bytes" where
  "pack_h v = (if - (2 ^ 15) \<le> v \<and> v < 2 ^ 15 then Inr (le_bytes 2 (nat (v mod 2 ^ 16)))
               else Inl StructError)"

definition pack_B :: "int \<Rightarrow> error + bytes" where
  "pack_B v = (if 0 \<le> v \<and> v < 2 ^ 8 then Inr (le_bytes 1 (nat v)) else Inl StructError)"

definition and_then :: "error + 'a \<Rightarrow> ('a \<Rightarrow> error + 'b) \<Rightarrow> error + 'b" where
  "and_then r f = (case r of Inl e \<Rightarrow> Inl e | Inr x \<Rightarrow> f x)"

fun pack_all :: "(error + bytes) list \<Rightarrow> error + bytes" where
  "pack_all [] = Inr []"
| "pack_all (Inl e # rs) = Inl e"
| "pack_all (Inr bs # rs) = and_then (pack_all rs) (\<lambda>cs. Inr (bs @ cs))"

text \<open>\<open>data[a:b]\<close> for \<open>0 \<le> a \<le> b\<close>, and \<open>struct.unpack_from\<close>, which raises when
  fewer bytes than the format needs remain after the offset.\<close>

definition slice :: "'a list \<Rightarrow> nat \<Rightarrow> nat \<Rightarrow> 'a list" where
  "slice xs a b = take (b - a) (drop a xs)"

definition unpack_from_I :: "bytes \<Rightarrow> nat \<Rightarrow> error + int" where
  "unpack_from_I data off =
     (if off + 4 \<le> length data then Inr (int (le_nat (slice data off (off + 4))))
      else Inl StructError)"

definition signed16 :: "nat \<Rightarrow> int" where
  "signed16 u = (if u < 2 ^ 15 then int u else int u - 2 ^ 16)"

definition unpack_from_Ih :: "bytes \<Rightarrow> nat \<Rightarrow> error + int \<times> int" where
  "unpack_from_Ih data off =
     (if off + 6 \<le> length data
      then Inr (int (le_nat (slice data off (off + 4))),
                signed16 (le_nat (slice data (off + 4) (off + 6))))
      else Inl StructError)"

definition unpack_from_B :: "bytes \<Rightarrow> nat \<Rightarrow> error + int" where
  "unpack_from_B data off =
     (if off + 1 \<le> length data then Inr (int (le_nat (slice data off (off + 1))))
      else Inl StructError)"

text \<open>The string operations of the codec: \<open>encode("ascii")\<close>, \<open>ljust(11, b"\x00")\<close>,
  \<open>rstrip(b"\x00")\<close> and \<open>decode("ascii")\<close>.\<close>

definition ascii_encode :: "string \<Rightarrow> error + bytes" where
  "ascii_encode s =
     (if list_all (\<lambda>c. (of_char c :: nat) < 128) s then Inr (map of_char s)
      else Inl UnicodeEncodeError)"

definition ascii_decode :: "bytes \<Rightarrow> error + string" where
  "ascii_decode bs =
     (if list_all (\<lambda>b. unat b < 128) bs then Inr (map (\<lambda>b. char_of (unat b)) bs)
      else Inl UnicodeDecodeError)"

definition ljust :: "nat \<Rightarrow> 'a \<Rightarrow> 'a list \<Rightarrow> 'a list" where
  "ljust n fill xs = xs @ replicate (n - length xs) fill"

definition rstrip :: "'a \<Rightarrow> 'a list \<Rightarrow> 'a list" where
  "rstrip x xs = rev (dropWhile (\<lambda>y. y = x) (rev xs))"

section \<open>Documents and packets (\<open>kakaotalk_cli/packet.py\<close>)\<close>

text \<open>
  A packet body is a Python \<open>dict\<close> with string keys; the values the protocol uses are
  integers, strings, booleans, nested documents and sequences. The dictionary is kept as
  an association list in insertion order.
\<close>

datatype bson_value =
    BInt int
  | BStr string
  | BBool bool
  | BDoc "(string \<times> bson_value) list"
  | BArr "bson_value list"

type_synonym doc = "(string \<times> bson_value) list"

record LocoPacket =
  packet_id :: int
  status_code :: int
  method_name :: string
  body_type :: int
  body :: doc

definition HEADER_SIZE :: nat where
  "HEADER_SIZE = 22"

text \<open>
  \<open>LocoPacket.encode\<close>. The document codec \<open>bson.BSON.encode\<close> belongs to a library
  outside the repository and is the parameter \<open>bson_enc\<close>. The statements run in the
  source's order, so the first exception raised is the one returned; the first
  \<open>struct.pack("<IhB", ...)\<close>, whose result the source overwrites, still raises on an
  out-of-range id or status.
\<close>

definition encode :: "(doc \<Rightarrow> error + bytes) \<Rightarrow> LocoPacket \<Rightarrow> error + bytes" where
  "encode bson_enc p =
     and_then (bson_enc (body p)) (\<lambda>body_bytes.
     and_then (ascii_encode (method_name p)) (\<lambda>mb.
     let method_bytes = take 11 (ljust 11 0 mb) in
     and_then (pack_all [pack_I (packet_id p), pack_h (status_code p), pack_B 0]) (\<lambda>unused.
     and_then (pack_all [pack_I (packet_id p), pack_h (status_code p)]) (\<lambda>header.
     and_then (pack_all [pack_B (body_type p), pack_I (int (length body_bytes))]) (\<lambda>tail.
     Inr (header @ method_bytes @ tail @ body_bytes))))))"

text \<open>The four header reads shared by \<open>decode\<close> and \<open>decode_header\<close>.\<close>

definition decode_header :: "bytes \<Rightarrow> error + int \<times> int \<times> string \<times> int \<times> int" where
  "decode_header data =
     and_then (unpack_from_Ih data 0) (\<lambda>(pid, status).
     and_then (ascii_decode (rstrip 0 (slice data 6 17))) (\<lambda>m.
     and_then (unpack_from_B data 17) (\<lambda>btype.
     and_then (unpack_from_I data 18) (\<lambda>body_length.
     Inr (pid, status, m, btype, body_length)))))"

text \<open>
  \<open>LocoPacket.decode\<close>. The body is the slice \<open>data[22 : 22 + body_length]\<close>; a Python
  slice past the end of the data is silently shorter. An empty slice gives the empty
  dictionary without calling the document codec \<open>bson_dec\<close>.
\<close>

definition decode :: "(bytes \<Rightarrow> error + doc) \<Rightarrow> bytes \<Rightarrow> error + LocoPacket" where
  "decode bson_dec data =
     (if length data < HEADER_SIZE then Inl (ValueError (length data) HEADER_SIZE)
      else
      and_then (unpack_from_Ih data 0) (\<lambda>(pid, status).
      and_then (ascii_decode (rstrip 0 (slice data 6 17))) (\<lambda>m.
      and_then (unpack_from_B data 17) (\<lambda>btype.
      and_then (unpack_from_I data 18) (\<lambda>body_length.
      let body_bytes = slice data HEADER_SIZE (HEADER_SIZE + nat body_length) in
      and_then (if body_bytes \<noteq> [] then bson_dec body_bytes else Inr []) (\<lambda>b.
      Inr \<lparr>packet_id = pid, status_code = status, method_name = m,
           body_type = btype, body = b\<rparr>))))))"


text \<open>
  The fields a header can carry: what \<open>struct.pack\<close> and \<open>encode("ascii")\<close>
  accept without raising (id: u32, status: i16, body type: u8, ASCII method).
\<close>

definition header_fields_ok :: "LocoPacket \<Rightarrow> bool" where
  "header_fields_ok p \<longleftrightarrow>
     0 \<le> packet_id p \<and> packet_id p < 2 ^ 32 \<and>
     - (2 ^ 15) \<le> status_code p \<and> status_code p < 2 ^ 15 \<and>
     0 \<le> body_type p \<and> body_type p < 2 ^ 8 \<and>
     list_all (\<lambda>c. (of_char c :: nat) < 128) (method_name p)"

text \<open>The 22 header bytes, written out field by field as the layout comment of
  \<open>LocoPacket\<close> gives them, for a body of \<open>n\<close> bytes.\<close>

definition header_bytes :: "LocoPacket \<Rightarrow> nat \<Rightarrow> bytes" where
  "header_bytes p n =
     le_bytes 4 (nat (packet_id p)) @ le_bytes 2 (nat (status_code p mod 2 ^ 16)) @
     take 11 (ljust 11 0 (map of_char (method_name p))) @
     le_bytes 1 (nat (body_type p)) @ le_bytes 4 n"

text \<open>The packet \<open>decode\<close> builds from a header: the method comes back cut to 11
  bytes and without its trailing NUL bytes.\<close>

definition stripped_header :: "LocoPacket \<Rightarrow> doc \<Rightarrow> LocoPacket" where
  "stripped_header p b =
     \<lparr>packet_id = packet_id p, status_code = status_code p,
      method_name = rstrip (CHR 0x00) (take 11 (method_name p)), body_type = body_type p, body = b\<rparr>"

text \<open>
  A stand-in for the document codec, used only to run the packet codec on concrete
  inputs: it serialises the empty document as BSON does (\<open>05 00 00 00 00\<close>) and
  nothing else.
\<close>

definition empty_doc_enc :: "doc \<Rightarrow> error + bytes" where
  "empty_doc_enc d = (if d = [] then Inr [5, 0, 0, 0, 0] else Inl (BSONError ''unsupported''))"

definition empty_doc_dec :: "bytes \<Rightarrow> error + doc" where
  "empty_doc_dec bs = (if bs = [5, 0, 0, 0, 0] then Inr [] else Inl (BSONError ''invalid''))"

definition getconf_packet :: LocoPacket where
  "getconf_packet =
     \<lparr>packet_id = 7, status_code = - 2, method_name = ''GETCONF'', body_type = 0, body = []\<rparr>"

definition nul_method_packet :: LocoPacket where
  "nul_method_packet =
     \<lparr>packet_id = 1, status_code = 0, method_name = [CHR ''A'', CHR ''B'', CHR 0x00],
      body_type = 0, body = []\<rparr>"

section \<open>Packet ids (\<open>PacketBuilder\<close>) and the one-shot requests of \<open>client.py\<close>\<close>

record PacketBuilder =
  next_id :: int

text \<open>\<open>PacketBuilder.__init__\<close> and \<open>PacketBuilder.build\<close>; \<open>body or {}\<close> turns a missing
  body into the empty dictionary.\<close>

definition PacketBuilder_init :: PacketBuilder where
  "PacketBuilder_init = \<lparr>next_id = 1\<rparr>"

definition build :: "PacketBuilder \<Rightarrow> string \<Rightarrow> doc option \<Rightarrow> LocoPacket \<times> PacketBuilder" where
  "build b m body_opt =
     (\<lparr>packet_id = next_id b, status_code = 0, method_name = m, body_type = 0,
       body = (case body_opt of None \<Rightarrow> [] | Some d \<Rightarrow> d)\<rparr>,
      b\<lparr>next_id := next_id b + 1\<rparr>)"

text \<open>A sequence of \<open>build\<close> calls on one builder, in order.\<close>

fun build_all :: "PacketBuilder \<Rightarrow> (string \<times> doc option) list \<Rightarrow> LocoPacket list \<times> PacketBuilder" where
  "build_all b [] = ([], b)"
| "build_all b ((m, d) # reqs) =
     (let (p, b') = build b m d; (ps, b'') = build_all b' reqs in (p # ps, b''))"

text \<open>The request packets of \<open>booking\<close> and \<open>checkin\<close>: each method constructs its own
  \<open>PacketBuilder()\<close>.\<close>

definition booking_packet :: LocoPacket where
  "booking_packet =
     fst (build PacketBuilder_init ''GETCONF''
       (Some [(''MCCMNC'', BStr ''99999''), (''os'', BStr ''mac''), (''model'', BStr '''')]))"

definition checkin_packet :: "int \<Rightarrow> LocoPacket" where
  "checkin_packet user_id =
     fst (build PacketBuilder_init ''CHECKIN''
       (Some [(''userId'', BInt user_id), (''os'', BStr ''mac''), (''ntype'', BInt 0),
              (''appVer'', BStr ''4.5.0''), (''MCCMNC'', BStr ''99999''), (''lang'', BStr ''ko''),
              (''countryISO'', BStr ''KR''), (''useSub'', BBool True)]))"

section \<open>Server assignment with fallback (\<open>LocoClient.checkin\<close>)\<close>

text \<open>What the client prints to \<open>stderr\<close>, one constructor per \<open>print\<close> statement.\<close>

datatype log_entry =
    CheckinServer bson_value "bson_value option" bool int
      \<comment> \<open>\<open>[checkin] Server: {host}:{port} (TLS={use_tls}, port={port})\<close>\<close>
  | CheckinFailed bool int error
      \<comment> \<open>\<open>[checkin] TLS={use_tls} port={port} failed: {e}\<close>\<close>
  | PushHandlerError string string
      \<comment> \<open>\<open>[loco] Push handler error ({method}): {e}\<close>\<close>
  | ReceiveError error
      \<comment> \<open>\<open>[loco] Receive error: {e}\<close>\<close>
  | ConnectionClosed
      \<comment> \<open>\<open>[loco] Connection closed by server\<close>\<close>

text \<open>Python truth of a document value, \<open>dict.get\<close> and \<open>d[k] = v\<close> (an existing key keeps
  its place, a new key goes to the end).\<close>

fun truthy :: "bson_value \<Rightarrow> bool" where
  "truthy (BInt i) = (i \<noteq> 0)"
| "truthy (BStr s) = (s \<noteq> [])"
| "truthy (BBool b) = b"
| "truthy (BDoc d) = (d \<noteq> [])"
| "truthy (BArr a) = (a \<noteq> [])"

definition truthy_opt :: "bson_value option \<Rightarrow> bool" where
  "truthy_opt v = (case v of None \<Rightarrow> False | Some x \<Rightarrow> truthy x)"

definition dict_get :: "doc \<Rightarrow> string \<Rightarrow> bson_value option" where
  "dict_get d k = map_of d k"

fun dict_set :: "doc \<Rightarrow> string \<Rightarrow> bson_value \<Rightarrow> doc" where
  "dict_set [] k v = [(k, v)]"
| "dict_set ((k', v') # d) k v = (if k' = k then (k, v) # d else (k', v') # dict_set d k v)"

text \<open>
  The network is a parameter: \<open>net i host port pkt use_tls\<close> is what the \<open>i\<close>-th call
  \<open>asyncio.wait_for(_loco_oneshot(host, port, pkt, use_tls), timeout=10)\<close> of one
  \<open>checkin\<close> gives, the reply or the exception raised (\<open>TimeoutError\<close> after the 10
  seconds). The loop returns the result, the attempts made in order, and the log.
\<close>

type_synonym network = "nat \<Rightarrow> string \<Rightarrow> int \<Rightarrow> LocoPacket \<Rightarrow> bool \<Rightarrow> error + LocoPacket"

fun checkin_loop ::
  "network \<Rightarrow> string \<Rightarrow> LocoPacket \<Rightarrow> nat \<Rightarrow> (bool \<times> int) list \<Rightarrow>
   (error + doc) \<times> (bool \<times> int) list \<times> log_entry list" where
  "checkin_loop net host pkt i [] =
     (Inl (ConnectionError ''All checkin attempts failed''), [], [])"
| "checkin_loop net host pkt i ((use_tls, port) # rest) =
     (case net i host port pkt use_tls of
        Inl e \<Rightarrow>
          (case checkin_loop net host pkt (Suc i) rest of
             (r, tried, lg) \<Rightarrow> (r, (use_tls, port) # tried, CheckinFailed use_tls port e # lg))
      | Inr response \<Rightarrow>
          (if truthy_opt (dict_get (body response) ''host'')
           then (Inr (dict_set (body response) ''_use_tls'' (BBool use_tls)),
                 [(use_tls, port)],
                 [CheckinServer (the (dict_get (body response) ''host''))
                    (dict_get (body response) ''port'') use_tls port])
           else (case checkin_loop net host pkt (Suc i) rest of
                   (r, tried, lg) \<Rightarrow> (r, (use_tls, port) # tried, lg))))"

definition checkin_variants :: "int \<Rightarrow> (bool \<times> int) list" where
  "checkin_variants checkin_port = [(True, 443), (True, checkin_port), (False, checkin_port)]"

definition checkin ::
  "network \<Rightarrow> int \<Rightarrow> string \<Rightarrow> int \<Rightarrow> (error + doc) \<times> (bool \<times> int) list \<times> log_entry list" where
  "checkin net user_id checkin_host checkin_port =
     checkin_loop net checkin_host (checkin_packet user_id) 0 (checkin_variants checkin_port)"







section \<open>The session: pending requests, the receive loop and push handlers\<close>

text \<open>
  A push handler is a callable of the caller: run on a packet it changes the world outside
  the client (the type \<open>'w\<close>) and either returns, raises an \<open>Exception\<close>, or raises a
  \<open>BaseException\<close> that is no \<open>Exception\<close> (task cancellation, \<open>KeyboardInterrupt\<close>),
  which \<open>except Exception\<close> does not catch.
\<close>

datatype outcome = Returned | Raised string | RaisedBase string

type_synonym 'w handler = "LocoPacket \<Rightarrow> 'w \<Rightarrow> outcome \<times> 'w"

text \<open>The states of an \<open>asyncio.Future\<close>: \<open>set_result\<close> on a future that is not pending
  raises \<open>InvalidStateError\<close>.\<close>

datatype future = Pending | Cancelled | Done LocoPacket

record 'w LocoClient =
  packet_builder :: PacketBuilder
  pending :: "int \<rightharpoonup> nat"
  futures :: "nat \<rightharpoonup> future"
  next_future :: nat
  push_handlers :: "string \<rightharpoonup> 'w handler list"
  connected :: bool
  receive_done :: bool
  written :: "bytes list"
  world :: 'w
  stderr :: "log_entry list"

text \<open>\<open>LocoClient.__init__\<close>, then \<open>connect\<close>: the client is connected and the receive task
  runs.\<close>

definition connected_client :: "'w \<Rightarrow> 'w LocoClient" where
  "connected_client w =
     \<lparr>packet_builder = PacketBuilder_init, pending = Map.empty, futures = Map.empty,
      next_future = 0, push_handlers = Map.empty, connected = True, receive_done = False,
      written = [], world = w, stderr = []\<rparr>"

text \<open>\<open>on_push\<close>: \<open>self._push_handlers.setdefault(method, []).append(handler)\<close>.\<close>

definition handlers_for :: "'w LocoClient \<Rightarrow> string \<Rightarrow> 'w handler list" where
  "handlers_for st m = (case push_handlers st m of None \<Rightarrow> [] | Some hs \<Rightarrow> hs)"

definition on_push :: "'w LocoClient \<Rightarrow> string \<Rightarrow> 'w handler \<Rightarrow> 'w LocoClient" where
  "on_push st m h = st\<lparr>push_handlers := (push_handlers st)(m \<mapsto> handlers_for st m @ [h])\<rparr>"

text \<open>\<open>_handle_push\<close>: the \<open>for\<close> loop with its \<open>try\<close>/\<open>except Exception\<close>. The result is the
  exception that left the loop, if any, the world and the log.\<close>

fun run_handlers ::
  "string \<Rightarrow> 'w handler list \<Rightarrow> LocoPacket \<Rightarrow> 'w \<Rightarrow> log_entry list \<Rightarrow>
   string option \<times> 'w \<times> log_entry list" where
  "run_handlers m [] p w lg = (None, w, lg)"
| "run_handlers m (h # hs) p w lg =
     (case h p w of
        (Returned, w') \<Rightarrow> run_handlers m hs p w' lg
      | (Raised e, w') \<Rightarrow> run_handlers m hs p w' (lg @ [PushHandlerError m e])
      | (RaisedBase e, w') \<Rightarrow> (Some e, w', lg))"

definition handle_push :: "'w LocoClient \<Rightarrow> LocoPacket \<Rightarrow> string option \<times> 'w LocoClient" where
  "handle_push st p =
     (case run_handlers (method_name p) (handlers_for st (method_name p)) p (world st) (stderr st) of
        (exc, w, lg) \<Rightarrow> (exc, st\<lparr>world := w, stderr := lg\<rparr>))"

text \<open>
  \<open>_send_packet\<close> up to its \<open>await\<close>: the future is created and stored under the packet id,
  then the bytes are written. \<open>send_data\<close> is the encoded (in legacy mode, encrypted)
  packet.
\<close>

definition send_packet_begin :: "'w LocoClient \<Rightarrow> LocoPacket \<Rightarrow> bytes \<Rightarrow> 'w LocoClient \<times> nat" where
  "send_packet_begin st packet send_data =
     (st\<lparr>pending := (pending st)(packet_id packet \<mapsto> next_future st),
         futures := (futures st)(next_future st \<mapsto> Pending),
         next_future := Suc (next_future st),
         written := written st @ [send_data]\<rparr>,
      next_future st)"

text \<open>
  \<open>await asyncio.wait_for(future, timeout=30.0)\<close> when the 30 seconds are over:
  \<open>wait_for\<close> cancels a future that is still pending and raises \<open>TimeoutError\<close> in the
  caller. \<open>_send_packet\<close> has no handler around it, so nothing else happens: the entry of
  \<open>_pending\<close> stays.
\<close>

definition wait_for_timeout :: "'w LocoClient \<Rightarrow> nat \<Rightarrow> (error + LocoPacket) \<times> 'w LocoClient" where
  "wait_for_timeout st f =
     (case futures st f of
        Some (Done p) \<Rightarrow> (Inr p, st)
      | _ \<Rightarrow> (Inl TimeoutError, st\<lparr>futures := (futures st)(f \<mapsto> Cancelled)\<rparr>))"

text \<open>
  One pass of the \<open>while self._connected\<close> loop of \<open>_receive_loop\<close>, with the loop's
  \<open>except\<close> clauses. \<open>incoming\<close> is the frame read and decoded in this pass, or the
  exception the read or \<open>LocoPacket.decode\<close> raised.
\<close>

definition stop_loop :: "'w LocoClient \<Rightarrow> log_entry \<Rightarrow> 'w LocoClient" where
  "stop_loop st entry = st\<lparr>stderr := stderr st @ [entry], connected := False, receive_done := True\<rparr>"

definition receive_iteration :: "'w LocoClient \<Rightarrow> error + LocoPacket \<Rightarrow> 'w LocoClient" where
  "receive_iteration st incoming =
     (if connected st \<and> \<not> receive_done st then
        (case incoming of
           Inl e \<Rightarrow>
             (if e = IncompleteReadError then stop_loop st ConnectionClosed
              else stop_loop st (ReceiveError e))
         | Inr packet \<Rightarrow>
             (case pending st (packet_id packet) of
                Some f \<Rightarrow>
                  (let st' = st\<lparr>pending := (pending st)(packet_id packet := None)\<rparr> in
                   case futures st f of
                     Some Pending \<Rightarrow> st'\<lparr>futures := (futures st)(f \<mapsto> Done packet)\<rparr>
                   | _ \<Rightarrow> stop_loop st' (ReceiveError InvalidStateError))
              | None \<Rightarrow>
                  (case handle_push st packet of
                     (None, st') \<Rightarrow> st'
                   | (Some e, st') \<Rightarrow> st'\<lparr>receive_done := True\<rparr>)))
      else st\<lparr>receive_done := True\<rparr>)"

fun receive_loop :: "'w LocoClient \<Rightarrow> (error + LocoPacket) list \<Rightarrow> 'w LocoClient" where
  "receive_loop st [] = st"
| "receive_loop st (x # xs) = receive_loop (receive_iteration st x) xs"





definition msg_push :: LocoPacket where
  "msg_push = \<lparr>packet_id = 900, status_code = 0, method_name = ''MSG'', body_type = 0, body = []\<rparr>"




definition request_packet :: "int \<Rightarrow> LocoPacket" where
  "request_packet i = \<lparr>packet_id = i, status_code = 0, method_name = ''PING'', body_type = 0, body = []\<rparr>"

definition late_reply_run :: "unit LocoClient" where
  "late_reply_run =
     (let (st1, f1) = send_packet_begin (connected_client ()) (request_packet 1) [];
          (st2, f2) = send_packet_begin st1 (request_packet 2) [];
          (r, st3) = wait_for_timeout st2 f1
      in receive_iteration st3 (Inr (request_packet 1)))"

definition after_timeout :: "(error + LocoPacket) \<times> unit LocoClient" where
  "after_timeout =
     (let (st1, f1) = send_packet_begin (connected_client ()) (request_packet 1) [];
          (st2, f2) = send_packet_begin st1 (request_packet 2) []
      in wait_for_timeout st2 f1)"

section \<open>The requests of a session\<close>

text \<open>
  \<open>send_command\<close>: the packet is built on \<open>self.packet_builder\<close>, the builder the client was
  constructed with, then \<open>_send_packet\<close> encodes it, which may raise before anything is
  registered, and registers and writes it. \<open>transport\<close> is \<open>Inr\<close> on a TLS connection
  (\<open>data_to_send = raw\<close>) and the encryptor's \<open>encrypt\<close> on a legacy one. The result is the
  packet built, the future awaited or the exception, and the client.
\<close>

definition send_command ::
  "(doc \<Rightarrow> error + bytes) \<Rightarrow> (bytes \<Rightarrow> error + bytes) \<Rightarrow> 'w LocoClient \<Rightarrow> string \<Rightarrow>
   doc option \<Rightarrow> LocoPacket \<times> (error + nat) \<times> 'w LocoClient" where
  "send_command bson_enc transport st m d =
     (case build (packet_builder st) m d of
        (packet, b') \<Rightarrow>
          (case and_then (encode bson_enc packet) transport of
             Inl e \<Rightarrow> (packet, Inl e, st\<lparr>packet_builder := b'\<rparr>)
           | Inr send_data \<Rightarrow>
               (case send_packet_begin (st\<lparr>packet_builder := b'\<rparr>) packet send_data of
                  (st', f) \<Rightarrow> (packet, Inr f, st'))))"

text \<open>
  What happens to a connected client, in any order: a caller sends a command, the receive
  loop reads a frame, the 30 seconds of a waiting request end, a handler is registered.
  \<open>session_requests\<close> runs a sequence of such events and collects the request packets
  built on the way.
\<close>

datatype 'w session_event =
    SendCommand string "doc option"
  | FrameRead "error + LocoPacket"
  | Deadline nat
  | OnPush string "'w handler"

definition session_step ::
  "(doc \<Rightarrow> error + bytes) \<Rightarrow> (bytes \<Rightarrow> error + bytes) \<Rightarrow> 'w LocoClient \<Rightarrow>
   'w session_event \<Rightarrow> LocoPacket list \<times> 'w LocoClient" where
  "session_step bson_enc transport st ev =
     (case ev of
        SendCommand m d \<Rightarrow>
          (case send_command bson_enc transport st m d of (packet, r, st') \<Rightarrow> ([packet], st'))
      | FrameRead incoming \<Rightarrow> ([], receive_iteration st incoming)
      | Deadline f \<Rightarrow> ([], snd (wait_for_timeout st f))
      | OnPush m h \<Rightarrow> ([], on_push st m h))"

fun session_requests ::
  "(doc \<Rightarrow> error + bytes) \<Rightarrow> (bytes \<Rightarrow> error + bytes) \<Rightarrow> 'w LocoClient \<Rightarrow>
   'w session_event list \<Rightarrow> LocoPacket list \<times> 'w LocoClient" where
  "session_requests bson_enc transport st [] = ([], st)"
| "session_requests bson_enc transport st (ev # evs) =
     (case session_step bson_enc transport st ev of
        (ps, st') \<Rightarrow>
          (case session_requests bson_enc transport st' evs of
             (qs, st'') \<Rightarrow> (ps @ qs, st'')))"

text \<open>The commands among the events, in order.\<close>

fun commands :: "'w session_event list \<Rightarrow> (string \<times> doc option) list" where
  "commands [] = []"
| "commands (SendCommand m d # evs) = (m, d) # commands evs"
| "commands (FrameRead incoming # evs) = commands evs"
| "commands (Deadline f # evs) = commands evs"
| "commands (OnPush m h # evs) = commands evs"

text \<open>The ids of the three requests \<open>full_connect\<close> sends on a new client: discovery
  (\<open>booking\<close>), assignment (\<open>checkin\<close>), and the first \<open>send_command\<close> of the session
  (\<open>LOGINLIST\<close> in \<open>login\<close>).\<close>

definition full_connect_request_ids :: "int \<Rightarrow> doc \<Rightarrow> int list" where
  "full_connect_request_ids user_id login_body =
     [packet_id booking_packet, packet_id (checkin_packet user_id)] @
     map packet_id
       (fst (session_requests empty_doc_enc Inr (connected_client ())
          [SendCommand ''LOGINLIST'' (Some login_body)]))"

text \<open>A session in which requests are answered, time out and fail to encode.\<close>

definition busy_session :: "unit session_event list" where
  "busy_session =
     [SendCommand ''LOGINLIST'' (Some []),
      FrameRead (Inr (request_packet 1)),
      SendCommand ''LCHATLIST'' None,
      Deadline 1,
      SendCommand ''WRITE'' (Some [(''msg'', BStr ''hello'')]),
      FrameRead (Inr msg_push),
      SendCommand ''PING'' None]"

section \<open>The secure channel: AES-128-CFB frames\<close>

text \<open>
  \<open>os.urandom\<close>: the bytes the operating system will deliver form a sequence, and a call
  takes the next \<open>n\<close> of them.
\<close>

type_synonym entropy = "nat \<Rightarrow> byte"

definition urandom :: "nat \<Rightarrow> entropy \<Rightarrow> bytes \<times> entropy" where
  "urandom n src = (map src [0..<n], \<lambda>i. src (i + n))"

text \<open>
  The block cipher is the library's primitive and a parameter here: \<open>E key block\<close> is the
  encryption of one 16-byte block. CFB with \<open>segment_size=128\<close> encrypts the register,
  xors as many bytes of the key stream as the message has left, and takes the ciphertext
  block as the next register.
\<close>

type_synonym block_cipher = "bytes \<Rightarrow> bytes \<Rightarrow> bytes"

definition xor_bytes :: "bytes \<Rightarrow> bytes \<Rightarrow> bytes" where
  "xor_bytes xs ks = map (\<lambda>(x, k). x XOR k) (zip xs ks)"

fun cfb_encrypt :: "(bytes \<Rightarrow> bytes) \<Rightarrow> bytes \<Rightarrow> bytes \<Rightarrow> bytes" where
  "cfb_encrypt E reg m =
     (if m = [] then []
      else let c = xor_bytes (take 16 m) (E reg) in c @ cfb_encrypt E c (drop 16 m))"

fun cfb_decrypt :: "(bytes \<Rightarrow> bytes) \<Rightarrow> bytes \<Rightarrow> bytes \<Rightarrow> bytes" where
  "cfb_decrypt E reg c =
     (if c = [] then []
      else xor_bytes (take 16 c) (E reg) @ cfb_decrypt E (take 16 c) (drop 16 c))"

declare cfb_encrypt.simps [simp del]
declare cfb_decrypt.simps [simp del]

text \<open>\<open>AES.new(key, AES.MODE_CFB, iv=iv, segment_size=128)\<close> raises \<open>ValueError\<close> unless the
  key has 16, 24 or 32 bytes and the IV 16.\<close>

definition cfb_params_ok :: "bytes \<Rightarrow> bytes \<Rightarrow> bool" where
  "cfb_params_ok key iv =
     ((length key = 16 \<or> length key = 24 \<or> length key = 32) \<and> length iv = 16)"

record LocoEncryptor =
  aes_key :: bytes

definition LocoEncryptor_init :: "entropy \<Rightarrow> LocoEncryptor \<times> entropy" where
  "LocoEncryptor_init src = (case urandom 16 src of (k, src') \<Rightarrow> (\<lparr>aes_key = k\<rparr>, src'))"

definition encrypt ::
  "block_cipher \<Rightarrow> LocoEncryptor \<Rightarrow> entropy \<Rightarrow> bytes \<Rightarrow> (error + bytes) \<times> entropy" where
  "encrypt E enc src plaintext =
     (case urandom 16 src of (iv, src') \<Rightarrow>
        (if cfb_params_ok (aes_key enc) iv then
           (let encrypted = cfb_encrypt (E (aes_key enc)) iv plaintext;
                size = length iv + length encrypted
            in and_then (pack_I (int size)) (\<lambda>s. Inr (s @ iv @ encrypted)))
         else Inl CipherValueError,
         src'))"

definition decrypt :: "block_cipher \<Rightarrow> LocoEncryptor \<Rightarrow> bytes \<Rightarrow> error + bytes" where
  "decrypt E enc data =
     (let iv = take 16 data; encrypted = drop 16 data in
      if cfb_params_ok (aes_key enc) iv
      then Inr (cfb_decrypt (E (aes_key enc)) iv encrypted)
      else Inl CipherValueError)"

text \<open>A block cipher, a source of random bytes and messages to run the channel on.\<close>

definition toy_cipher :: block_cipher where
  "toy_cipher k x = map (\<lambda>i. (k @ replicate 16 0) ! i + (x @ replicate 16 0) ! i + 1) [0..<16]"

definition counting_entropy :: entropy where
  "counting_entropy i = of_nat i"

definition constant_entropy :: entropy where
  "constant_entropy i = 7"

definition seventeen_bytes :: bytes where
  "seventeen_bytes = [1, 2, 3, 4, 5, 6, 7, 8, 9, 10, 11, 12, 13, 14, 15, 16, 17]"

definition plaintext_4GiB :: bytes where
  "plaintext_4GiB = replicate (2 ^ 32 - 16) 0"

definition plaintext_over_4GiB :: bytes where
  "plaintext_over_4GiB = replicate (2 ^ 32) 1"

definition session_start :: "LocoEncryptor \<times> entropy" where
  "session_start = LocoEncryptor_init counting_entropy"

section \<open>The packet codec: header layout and round trip\<close>

lemma and_then_Inl [simp]: "and_then (Inl e) f = Inl e"
  and and_then_Inr [simp]: "and_then (Inr x) f = f x"
  by (simp_all add: and_then_def)

lemma length_le_bytes [simp]: "length (le_bytes n v) = n"
  by (induction n arbitrary: v) simp_all

lemma le_nat_le_bytes: "v < 256 ^ n \<Longrightarrow> le_nat (le_bytes n v) = v"
proof (induction n arbitrary: v)
  case 0
  then show ?case by simp
next
  case (Suc n)
  then have "v div 256 < 256 ^ n"
    by (simp add: less_mult_imp_div_less mult.commute)
  with Suc.IH have "le_nat (le_bytes n (v div 256)) = v div 256" by blast
  moreover have "unat (of_nat (v mod 256) :: byte) = v mod 256"
    by (simp add: unat_of_nat)
  ultimately show ?case by simp
qed

lemma signed16_roundtrip:
  assumes "- (2 ^ 15) \<le> v" "v < 2 ^ 15"
  shows "signed16 (nat (v mod 2 ^ 16)) = v"
proof (cases "0 \<le> v")
  case True
  with assms have "v mod 2 ^ 16 = v" by simp
  with True assms show ?thesis by (simp add: signed16_def)
next
  case False
  have "(v + 2 ^ 16) mod 2 ^ 16 = v + 2 ^ 16"
    using assms False by (intro mod_pos_pos_trivial) simp_all
  moreover have "(v + 2 ^ 16) mod 2 ^ 16 = v mod 2 ^ 16"
    by (rule mod_add_self2)
  ultimately have "v mod 2 ^ 16 = v + 2 ^ 16" by simp
  with False assms show ?thesis by (simp add: signed16_def)
qed

lemma unat_of_char_byte: "unat (of_char c :: byte) = of_char c"
proof -
  have "(of_char c :: byte) = of_nat (of_char c)" by (simp add: of_nat_of_char)
  moreover have "(of_char c :: nat) < 256"
    by (metis of_char_mod_256 mod_less_divisor zero_less_numeral)
  ultimately show ?thesis by (simp add: unat_of_nat)
qed

lemma ascii_roundtrip:
  "list_all (\<lambda>c. (of_char c :: nat) < 128) s \<Longrightarrow>
   ascii_decode (map of_char s) = Inr s"
  by (simp add: ascii_decode_def list_all_iff unat_of_char_byte map_idI)

lemma dropWhile_replicate_append:
  "dropWhile (\<lambda>y. y = x) (replicate n x @ ys) = dropWhile (\<lambda>y. y = x) ys"
  by (induction n) simp_all

lemma rstrip_append_replicate: "rstrip x (xs @ replicate n x) = rstrip x xs"
  by (simp add: rstrip_def dropWhile_replicate_append)

lemma rstrip_take_ljust: "rstrip x (take n (ljust n x xs)) = rstrip x (take n xs)"
proof (cases "n \<le> length xs")
  case True
  then show ?thesis by (simp add: ljust_def)
next
  case False
  then show ?thesis by (simp add: ljust_def rstrip_append_replicate)
qed

lemma rstrip_id: "xs = [] \<or> last xs \<noteq> x \<Longrightarrow> rstrip x xs = xs"
  by (cases xs rule: rev_cases) (auto simp: rstrip_def)

lemma rstrip_map_inj: "inj f \<Longrightarrow> rstrip (f x) (map f xs) = map f (rstrip x xs)"
  by (simp add: rstrip_def rev_map dropWhile_map comp_def inj_eq)

lemma length_ljust [simp]: "length (ljust n x xs) = max n (length xs)"
  by (simp add: ljust_def)

lemma length_header_bytes [simp]: "length (header_bytes p n) = 22"
  by (simp add: header_bytes_def)

lemma encode_ok:
  assumes "header_fields_ok p" "bson_enc (body p) = Inr bb" "length bb < 2 ^ 32"
  shows "encode bson_enc p = Inr (header_bytes p (length bb) @ bb)"
  using assms
  by (simp add: encode_def header_fields_ok_def header_bytes_def ascii_encode_def
      pack_I_def pack_h_def pack_B_def)

lemma inj_of_char_byte: "inj (of_char :: char \<Rightarrow> byte)"
proof (rule injI)
  fix c d :: char
  assume "(of_char c :: byte) = of_char d"
  then have "unat (of_char c :: byte) = unat (of_char d :: byte)" by simp
  then have "(of_char c :: nat) = of_char d" by (simp only: unat_of_char_byte)
  then show "c = d" by simp
qed

lemma unpack_Ih_at0:
  "length A = 4 \<Longrightarrow> length B = 2 \<Longrightarrow>
   unpack_from_Ih (A @ B @ rest) 0 = Inr (int (le_nat A), signed16 (le_nat B))"
  by (simp add: unpack_from_Ih_def slice_def)

lemma unpack_B_at17:
  "length H = 17 \<Longrightarrow> length T = 1 \<Longrightarrow> unpack_from_B (H @ T @ rest) 17 = Inr (int (le_nat T))"
  by (simp add: unpack_from_B_def slice_def)

lemma unpack_I_at18:
  "length H = 18 \<Longrightarrow> length L = 4 \<Longrightarrow> unpack_from_I (H @ L @ rest) 18 = Inr (int (le_nat L))"
  by (simp add: unpack_from_I_def slice_def)

lemma slice_at6:
  "length H = 6 \<Longrightarrow> length M = 11 \<Longrightarrow> slice (H @ M @ rest) 6 17 = M"
  by (simp add: slice_def)

lemma slice_body:
  "length H = 22 \<Longrightarrow> slice (H @ rest) 22 (22 + n) = take n rest"
  by (simp add: slice_def)

lemma method_roundtrip:
  assumes "list_all (\<lambda>c. (of_char c :: nat) < 128) m"
  shows "ascii_decode (rstrip 0 (take 11 (ljust 11 0 (map of_char m)))) =
         Inr (rstrip (CHR 0x00) (take 11 m))"
proof -
  have z: "(0 :: byte) = of_char (CHR 0x00)" by simp
  have "rstrip (0::byte) (take 11 (ljust 11 0 (map of_char m))) =
        rstrip 0 (map of_char (take 11 m))"
    by (simp add: rstrip_take_ljust take_map)
  also have "\<dots> = map of_char (rstrip (CHR 0x00) (take 11 m))"
    unfolding z by (rule rstrip_map_inj) (rule inj_of_char_byte)
  finally have r: "rstrip (0::byte) (take 11 (ljust 11 0 (map of_char m))) =
        map of_char (rstrip (CHR 0x00) (take 11 m))" .
  have "list_all (\<lambda>c. (of_char c :: nat) < 128) (rstrip (CHR 0x00) (take 11 m))"
    using assms
    by (auto simp: list_all_iff rstrip_def dest!: set_dropWhileD in_set_takeD)
  then show ?thesis unfolding r by (rule ascii_roundtrip)
qed

lemma header_decode:
  assumes ok: "header_fields_ok p" and n: "n < 2 ^ 32"
  shows "unpack_from_Ih (header_bytes p n @ rest) 0 = Inr (packet_id p, status_code p)"
    and "ascii_decode (rstrip 0 (slice (header_bytes p n @ rest) 6 17)) =
           Inr (rstrip (CHR 0x00) (take 11 (method_name p)))"
    and "unpack_from_B (header_bytes p n @ rest) 17 = Inr (body_type p)"
    and "unpack_from_I (header_bytes p n @ rest) 18 = Inr (int n)"
proof -
  define A where "A = le_bytes 4 (nat (packet_id p))"
  define B where "B = le_bytes 2 (nat (status_code p mod 2 ^ 16))"
  define M where "M = take 11 (ljust 11 (0::byte) (map of_char (method_name p)))"
  define T where "T = le_bytes 1 (nat (body_type p))"
  define L where "L = le_bytes 4 n"
  have len: "length A = 4" "length B = 2" "length M = 11" "length T = 1" "length L = 4"
    by (simp_all add: A_def B_def M_def T_def L_def)
  have h: "header_bytes p n = A @ B @ M @ T @ L"
    by (simp only: header_bytes_def A_def B_def M_def T_def L_def)
  have "nat (packet_id p) < 256 ^ 4"
    using ok by (simp add: header_fields_ok_def nat_less_iff)
  then have a: "int (le_nat A) = packet_id p"
    unfolding A_def using ok by (simp only: le_nat_le_bytes) (simp add: header_fields_ok_def)
  have "status_code p mod 2 ^ 16 < 2 ^ 16" by simp
  then have "nat (status_code p mod 2 ^ 16) < 256 ^ 2" by (simp add: nat_less_iff)
  then have "le_nat B = nat (status_code p mod 2 ^ 16)"
    unfolding B_def by (simp only: le_nat_le_bytes)
  moreover have "signed16 (nat (status_code p mod 2 ^ 16)) = status_code p"
    using ok by (intro signed16_roundtrip) (simp_all add: header_fields_ok_def)
  ultimately have b: "signed16 (le_nat B) = status_code p" by simp
  have "nat (body_type p) < 256 ^ 1"
    using ok by (simp add: header_fields_ok_def nat_less_iff)
  then have t: "int (le_nat T) = body_type p"
    unfolding T_def using ok by (simp only: le_nat_le_bytes) (simp add: header_fields_ok_def)
  have "n < 256 ^ 4" using n by simp
  then have l: "le_nat L = n" unfolding L_def by (simp only: le_nat_le_bytes)
  show "unpack_from_Ih (header_bytes p n @ rest) 0 = Inr (packet_id p, status_code p)"
    using unpack_Ih_at0 [OF len(1,2), of "M @ T @ L @ rest"] a b by (simp add: h)
  have "slice (header_bytes p n @ rest) 6 17 = M"
    using slice_at6 [of "A @ B" M "T @ L @ rest"] len by (simp add: h)
  then show "ascii_decode (rstrip 0 (slice (header_bytes p n @ rest) 6 17)) =
           Inr (rstrip (CHR 0x00) (take 11 (method_name p)))"
    unfolding M_def using ok by (simp only: header_fields_ok_def method_roundtrip)
  show "unpack_from_B (header_bytes p n @ rest) 17 = Inr (body_type p)"
    using unpack_B_at17 [of "A @ B @ M" T "L @ rest"] len t by (simp add: h)
  show "unpack_from_I (header_bytes p n @ rest) 18 = Inr (int n)"
    using unpack_I_at18 [of "A @ B @ M @ T" L rest] len l by (simp add: h)
qed

lemma decode_header_bytes:
  assumes ok: "header_fields_ok p" and n: "n < 2 ^ 32"
  shows "decode bson_dec (header_bytes p n @ rest) =
         and_then (if take n rest \<noteq> [] then bson_dec (take n rest) else Inr [])
           (\<lambda>b. Inr (stripped_header p b))"
  using header_decode [OF ok n, of rest] n
  by (simp add: decode_def HEADER_SIZE_def slice_body stripped_header_def Let_def)

lemma decode_header_header_bytes:
  assumes ok: "header_fields_ok p" and n: "n < 2 ^ 32"
  shows "decode_header (header_bytes p n @ rest) =
         Inr (packet_id p, status_code p, rstrip (CHR 0x00) (take 11 (method_name p)),
              body_type p, int n)"
  using header_decode [OF ok n, of rest]
  by (simp add: decode_header_def)

lemma decode_too_short:
  "length short < 22 \<Longrightarrow> decode bson_dec short = Inl (ValueError (length short) 22)"
  by (simp add: decode_def HEADER_SIZE_def)

subsection \<open>The codec on two concrete packets\<close>

lemma getconf_fields_ok: "header_fields_ok getconf_packet"
  by (simp add: header_fields_ok_def getconf_packet_def)

lemma nul_method_fields_ok: "header_fields_ok nul_method_packet"
  by (simp add: header_fields_ok_def nul_method_packet_def)

lemma rstrip_GETCONF: "rstrip (CHR 0x00) ''GETCONF'' = ''GETCONF''"
  by (rule rstrip_id) simp

lemma rstrip_AB_nul: "rstrip (CHR 0x00) [CHR ''A'', CHR ''B'', CHR 0x00] = ''AB''"
  by (simp add: rstrip_def)

lemma getconf_enc: "empty_doc_enc (body getconf_packet) = Inr [5, 0, 0, 0, 0]"
  by (simp add: empty_doc_enc_def getconf_packet_def)

lemma five_bytes: "length [5, 0, 0, 0, 0 :: byte] < 2 ^ 32"
  by simp

lemma getconf_encode:
  "encode empty_doc_enc getconf_packet = Inr (header_bytes getconf_packet 5 @ [5, 0, 0, 0, 0])"
proof -
  have "encode empty_doc_enc getconf_packet =
        Inr (header_bytes getconf_packet (length [5, 0, 0, 0, 0 :: byte]) @ [5, 0, 0, 0, 0])"
    by (rule encode_ok [of getconf_packet empty_doc_enc "[5, 0, 0, 0, 0]",
          OF getconf_fields_ok getconf_enc five_bytes])
  moreover have "length [5, 0, 0, 0, 0 :: byte] = 5" by simp
  ultimately show ?thesis by (simp only:)
qed

lemma getconf_header:
  "decode_header (header_bytes getconf_packet 5 @ rest) = Inr (7, - 2, ''GETCONF'', 0, 5)"
proof -
  have "(5::nat) < 2 ^ 32" by simp
  then have "decode_header (header_bytes getconf_packet 5 @ rest) =
      Inr (packet_id getconf_packet, status_code getconf_packet,
           rstrip (CHR 0x00) (take 11 (method_name getconf_packet)),
           body_type getconf_packet, int 5)"
    by (rule decode_header_header_bytes [OF getconf_fields_ok])
  also have "\<dots> = Inr (7, - 2, ''GETCONF'', 0, 5)"
    by (simp add: getconf_packet_def rstrip_GETCONF)
  finally show ?thesis .
qed

lemma take_header: "take 22 (header_bytes p n @ rest) = header_bytes p n"
  by simp

lemma getconf_stripped: "stripped_header getconf_packet [] = getconf_packet"
  by (simp add: stripped_header_def getconf_packet_def rstrip_GETCONF)

lemma getconf_decode_no_body:
  "decode empty_doc_dec (header_bytes getconf_packet 5) = Inr getconf_packet"
proof -
  have "(5::nat) < 2 ^ 32" by simp
  from decode_header_bytes [OF getconf_fields_ok this, where rest = "[]" and bson_dec = empty_doc_dec]
  have "decode empty_doc_dec (header_bytes getconf_packet 5 @ []) =
      Inr (stripped_header getconf_packet [])"
    by simp
  then show ?thesis by (simp only: getconf_stripped append_Nil2)
qed

lemma nul_enc: "empty_doc_enc (body nul_method_packet) = Inr [5, 0, 0, 0, 0]"
  by (simp add: empty_doc_enc_def nul_method_packet_def)

lemma nul_encode:
  "encode empty_doc_enc nul_method_packet =
     Inr (header_bytes nul_method_packet 5 @ [5, 0, 0, 0, 0])"
proof -
  have "encode empty_doc_enc nul_method_packet =
        Inr (header_bytes nul_method_packet (length [5, 0, 0, 0, 0 :: byte]) @ [5, 0, 0, 0, 0])"
    by (rule encode_ok [of nul_method_packet empty_doc_enc "[5, 0, 0, 0, 0]",
          OF nul_method_fields_ok nul_enc five_bytes])
  moreover have "length [5, 0, 0, 0, 0 :: byte] = 5" by simp
  ultimately show ?thesis by (simp only:)
qed

lemma nul_stripped:
  "stripped_header nul_method_packet [] = nul_method_packet\<lparr>method_name := ''AB''\<rparr>"
  by (simp add: stripped_header_def nul_method_packet_def rstrip_AB_nul)

lemma nul_decode:
  "decode empty_doc_dec (header_bytes nul_method_packet 5 @ [5, 0, 0, 0, 0]) =
     Inr (nul_method_packet\<lparr>method_name := ''AB''\<rparr>)"
proof -
  have "(5::nat) < 2 ^ 32" by simp
  from decode_header_bytes [OF nul_method_fields_ok this,
      where rest = "[5, 0, 0, 0, 0]" and bson_dec = empty_doc_dec]
  have "decode empty_doc_dec (header_bytes nul_method_packet 5 @ [5, 0, 0, 0, 0]) =
      Inr (stripped_header nul_method_packet [])"
    by (simp add: empty_doc_dec_def)
  then show ?thesis by (simp only: nul_stripped)
qed

subsection \<open>Claims about the packet codec\<close>

text \<open>
  Claim C5, as amended. For a packet whose header fields are in range and whose body
  serialises to \<open>bb\<close>, fewer than \<open>2^32\<close> bytes, \<open>encode\<close> returns the 22 header
  bytes (id u32, status i16, method cut and NUL-padded to 11 bytes, body type u8, body
  length u32, little-endian) followed by \<open>bb\<close>; \<open>decode_header\<close> on the first 22 bytes
  returns the id, the status, the method cut to 11 bytes with its trailing NUL bytes
  removed (not the padded field), the body type and the exact length of \<open>bb\<close>.
\<close>

theorem decode_header_of_encode:
  assumes "header_fields_ok p" and "bson_enc (body p) = Inr bb" and "length bb < 2 ^ 32"
  shows "encode bson_enc p = Inr (header_bytes p (length bb) @ bb) \<and>
         decode_header (take 22 (header_bytes p (length bb) @ bb)) =
           Inr (packet_id p, status_code p, rstrip (CHR 0x00) (take 11 (method_name p)),
                body_type p, int (length bb))"
  using encode_ok [of p bson_enc bb, OF assms] decode_header_header_bytes [OF assms(1,3), of "[]"]
  by simp

theorem decode_header_of_encode_witness:
  "header_fields_ok getconf_packet \<and>
   empty_doc_enc (body getconf_packet) = Inr [5, 0, 0, 0, 0] \<and>
   length [5, 0, 0, 0, 0 :: byte] < 2 ^ 32 \<and>
   encode empty_doc_enc getconf_packet =
     Inr (header_bytes getconf_packet (length [5, 0, 0, 0, 0 :: byte]) @ [5, 0, 0, 0, 0]) \<and>
   decode_header (take 22 (header_bytes getconf_packet (length [5, 0, 0, 0, 0 :: byte]) @
       [5, 0, 0, 0, 0])) =
     Inr (packet_id getconf_packet, status_code getconf_packet,
          rstrip (CHR 0x00) (take 11 (method_name getconf_packet)),
          body_type getconf_packet, int (length [5, 0, 0, 0, 0 :: byte]))"
  using decode_header_of_encode [where p = getconf_packet and bson_enc = empty_doc_enc
      and bb = "[5, 0, 0, 0, 0]", OF getconf_fields_ok getconf_enc five_bytes]
    getconf_fields_ok getconf_enc five_bytes
  by blast

text \<open>The claim as stated fails: for the method \<open>GETCONF\<close> the tuple holds the seven
  characters, not the field padded to 11 bytes.\<close>

theorem decode_header_method_not_padded:
  "and_then (encode empty_doc_enc getconf_packet) (\<lambda>bs. decode_header (take 22 bs)) =
     Inr (7, - 2, ''GETCONF'', 0, 5) \<and>
   ''GETCONF'' \<noteq> take 11 (ljust 11 (CHR 0x00) ''GETCONF'')"
proof
  show "and_then (encode empty_doc_enc getconf_packet) (\<lambda>bs. decode_header (take 22 bs)) =
     Inr (7, - 2, ''GETCONF'', 0, 5)"
    using getconf_header [of "[]"]
    by (simp only: getconf_encode and_then_Inr take_header append_Nil2)
  show "''GETCONF'' \<noteq> take 11 (ljust 11 (CHR 0x00) ''GETCONF'')"
    by (simp add: ljust_def)
qed

text \<open>
  Claim C4, as amended. \<open>decode (encode p) = p\<close> for every packet whose id, status and
  body type fit their header fields, whose method is ASCII, at most 11 bytes long and does
  not end in a NUL byte, and whose body the document codec serialises to fewer than
  \<open>2^32\<close> bytes and reads back unchanged.
\<close>

theorem decode_encode_roundtrip:
  assumes ok: "header_fields_ok p"
    and m: "length (method_name p) \<le> 11"
      "method_name p = [] \<or> last (method_name p) \<noteq> CHR 0x00"
    and enc: "bson_enc (body p) = Inr bb" and len: "length bb < 2 ^ 32"
    and dec: "(if bb \<noteq> [] then bson_dec bb else Inr []) = Inr (body p)"
  shows "and_then (encode bson_enc p) (decode bson_dec) = Inr p"
proof -
  have "rstrip (CHR 0x00) (take 11 (method_name p)) = method_name p"
    using m by (simp add: rstrip_id)
  then have "stripped_header p (body p) = p"
    by (simp add: stripped_header_def)
  then show ?thesis
    using encode_ok [of p bson_enc bb, OF ok enc len]
      decode_header_bytes [OF ok len, of bson_dec bb] dec
    by (cases "bb = []") simp_all
qed

theorem decode_encode_roundtrip_witness:
  "header_fields_ok getconf_packet \<and> length (method_name getconf_packet) \<le> 11 \<and>
   (method_name getconf_packet = [] \<or> last (method_name getconf_packet) \<noteq> CHR 0x00) \<and>
   empty_doc_enc (body getconf_packet) = Inr [5, 0, 0, 0, 0] \<and>
   length [5, 0, 0, 0, 0 :: byte] < 2 ^ 32 \<and>
   and_then (encode empty_doc_enc getconf_packet) (decode empty_doc_dec) = Inr getconf_packet"
proof -
  have m: "length (method_name getconf_packet) \<le> 11"
    "method_name getconf_packet = [] \<or> last (method_name getconf_packet) \<noteq> CHR 0x00"
    by (simp_all add: getconf_packet_def)
  have d: "(if [5, 0, 0, 0, 0 :: byte] \<noteq> [] then empty_doc_dec [5, 0, 0, 0, 0] else Inr []) =
           Inr (body getconf_packet)"
    by (simp add: empty_doc_dec_def getconf_packet_def)
  show ?thesis
    using decode_encode_roundtrip [where p = getconf_packet and bson_enc = empty_doc_enc
        and bb = "[5, 0, 0, 0, 0]" and bson_dec = empty_doc_dec,
        OF getconf_fields_ok m getconf_enc five_bytes d]
      getconf_fields_ok m getconf_enc five_bytes
    by blast
qed

text \<open>The claim as stated fails: an ASCII method of three bytes that ends in a NUL byte
  comes back without it.\<close>

theorem trailing_nul_method_not_restored:
  "and_then (encode empty_doc_enc nul_method_packet) (decode empty_doc_dec) =
     Inr (nul_method_packet\<lparr>method_name := ''AB''\<rparr>) \<and>
   nul_method_packet\<lparr>method_name := ''AB''\<rparr> \<noteq> nul_method_packet"
proof
  show "and_then (encode empty_doc_enc nul_method_packet) (decode empty_doc_dec) =
     Inr (nul_method_packet\<lparr>method_name := ''AB''\<rparr>)"
    by (simp only: nul_encode and_then_Inr nul_decode)
  show "nul_method_packet\<lparr>method_name := ''AB''\<rparr> \<noteq> nul_method_packet"
    by (simp add: nul_method_packet_def)
qed

text \<open>
  Claim C1, as amended. \<open>decode\<close> fails with \<open>ValueError\<close> on fewer than 22 bytes. On
  a well-formed header it does not compare the declared body length \<open>n\<close> with the bytes
  present: it decodes the slice \<open>data[22 : 22 + n]\<close>, that is whatever part of the body
  is there, and with no body byte at all it returns the packet with an empty body.
\<close>

theorem decode_short_or_truncated:
  assumes "header_fields_ok p" and "n < 2 ^ 32" and "length short < 22"
  shows "decode bson_dec short = Inl (ValueError (length short) 22) \<and>
         decode bson_dec (header_bytes p n @ rest) =
           and_then (if take n rest \<noteq> [] then bson_dec (take n rest) else Inr [])
             (\<lambda>b. Inr (stripped_header p b)) \<and>
         decode bson_dec (header_bytes p n) = Inr (stripped_header p [])"
proof (intro conjI)
  show "decode bson_dec short = Inl (ValueError (length short) 22)"
    using assms(3) by (rule decode_too_short)
  show "decode bson_dec (header_bytes p n @ rest) =
           and_then (if take n rest \<noteq> [] then bson_dec (take n rest) else Inr [])
             (\<lambda>b. Inr (stripped_header p b))"
    using assms(1,2) by (rule decode_header_bytes)
  from decode_header_bytes [OF assms(1,2), where rest = "[]" and bson_dec = bson_dec]
  have "decode bson_dec (header_bytes p n @ []) = Inr (stripped_header p [])"
    by simp
  then show "decode bson_dec (header_bytes p n) = Inr (stripped_header p [])"
    by (simp only: append_Nil2)
qed

theorem decode_short_or_truncated_witness:
  "header_fields_ok getconf_packet \<and> (5::nat) < 2 ^ 32 \<and> length ([] :: bytes) < 22 \<and>
   decode empty_doc_dec [] = Inl (ValueError (length ([] :: bytes)) 22) \<and>
   decode empty_doc_dec (header_bytes getconf_packet 5) = Inr (stripped_header getconf_packet [])"
proof -
  have n: "(5::nat) < 2 ^ 32" and s: "length ([] :: bytes) < 22" by simp_all
  show ?thesis
    using decode_short_or_truncated [where p = getconf_packet and n = 5 and short = "[]"
        and bson_dec = empty_doc_dec, OF getconf_fields_ok n s]
      getconf_fields_ok n s
    by blast
qed

text \<open>The claim as stated fails: 22 bytes whose header declares a body of 5 bytes, with
  no body byte present, decode to a packet with an empty body.\<close>

theorem decode_accepts_truncated_body:
  "length (header_bytes getconf_packet 5) = 22 \<and>
   unpack_from_I (header_bytes getconf_packet 5) 18 = Inr 5 \<and>
   decode empty_doc_dec (header_bytes getconf_packet 5) = Inr getconf_packet"
proof -
  have "(5::nat) < 2 ^ 32" by simp
  from header_decode(4) [OF getconf_fields_ok this, of "[]"]
  have "unpack_from_I (header_bytes getconf_packet 5) 18 = Inr 5"
    by simp
  then show ?thesis
    by (simp only: getconf_decode_no_body length_header_bytes simp_thms)
qed

section \<open>Packet ids\<close>

lemma build_all_ids:
  "map packet_id (fst (build_all b reqs)) = map (\<lambda>i. next_id b + int i) [0..<length reqs]"
proof (induction reqs arbitrary: b)
  case Nil
  show ?case by simp
next
  case (Cons r reqs)
  obtain m d where r: "r = (m, d)" by (cases r)
  let ?b' = "b\<lparr>next_id := next_id b + 1\<rparr>"
  have "map packet_id (fst (build_all b (r # reqs))) =
        next_id b # map packet_id (fst (build_all ?b' reqs))"
    by (simp add: r build_def split_beta)
  also have "\<dots> = next_id b # map (\<lambda>i. next_id b + 1 + int i) [0..<length reqs]"
    by (simp add: Cons.IH)
  also have "\<dots> = map (\<lambda>i. next_id b + int i) [0..<length (r # reqs)]"
    by (simp add: upt_rec [of 0] map_Suc_upt [symmetric] del: upt_Suc)
  finally show ?case .
qed

lemma builder_of_receive_iteration [simp]:
  "packet_builder (receive_iteration st x) = packet_builder st"
  by (auto simp add: receive_iteration_def stop_loop_def handle_push_def Let_def
      split: sum.split option.split future.split prod.split)

lemma builder_of_wait_for_timeout [simp]:
  "packet_builder (snd (wait_for_timeout st f)) = packet_builder st"
  by (simp add: wait_for_timeout_def split: option.split future.split)

lemma builder_of_on_push [simp]:
  "packet_builder (on_push st m h) = packet_builder st"
  by (simp add: on_push_def)

lemma send_command_builds:
  "fst (send_command bson_enc transport st m d) = fst (build (packet_builder st) m d)"
  "packet_builder (snd (snd (send_command bson_enc transport st m d)))
     = snd (build (packet_builder st) m d)"
  by (simp_all add: send_command_def send_packet_begin_def split: prod.split sum.split)

lemma session_requests_build_all:
  "fst (session_requests bson_enc transport st evs)
     = fst (build_all (packet_builder st) (commands evs))"
proof (induction evs arbitrary: st)
  case Nil
  show ?case by simp
next
  case (Cons ev evs)
  show ?case
  proof (cases ev)
    case (SendCommand m d)
    obtain p r st' where sc: "send_command bson_enc transport st m d = (p, r, st')"
      by (cases "send_command bson_enc transport st m d") auto
    from send_command_builds [of bson_enc transport st m d] sc
    have p: "p = fst (build (packet_builder st) m d)"
      and b: "packet_builder st' = snd (build (packet_builder st) m d)" by simp_all
    show ?thesis
      by (simp add: SendCommand session_step_def sc Cons.IH b p split_beta)
  next
    case (FrameRead x)
    then show ?thesis by (simp add: session_step_def Cons.IH split_beta)
  next
    case (Deadline f)
    then show ?thesis by (simp add: session_step_def Cons.IH split_beta)
  next
    case (OnPush m h)
    then show ?thesis by (simp add: session_step_def Cons.IH split_beta)
  qed
qed

lemma consecutive_sorted_distinct:
  "sorted_wrt (<) (map (\<lambda>i. 1 + int i) [0..<n]) \<and> distinct (map (\<lambda>i. 1 + int i) [0..<n])"
  by (simp add: sorted_wrt_map sorted_wrt_upt distinct_map inj_on_def)

lemma session_ids:
  "map packet_id (fst (session_requests bson_enc transport (connected_client w) evs))
     = map (\<lambda>i. 1 + int i) [0..<length (commands evs)]"
  using build_all_ids [of PacketBuilder_init "commands evs"]
  by (simp add: session_requests_build_all connected_client_def PacketBuilder_init_def)

text \<open>
  Claim C9, as amended. The packets built by one \<open>PacketBuilder\<close> carry the ids
  1, 2, 3, ... in order: strictly increasing, no id assigned twice. The requests of a
  session share one builder, the client's: whatever else happens to the client in between
  (replies and pushes read, requests timing out, handlers registered, packets that fail to
  encode), the packets its \<open>send_command\<close> calls build are those one builder makes of the
  commands in order, with the ids 1, 2, 3, ... The discovery and the assignment request
  are built on builders of their own and carry id 1 each.
\<close>

theorem builder_ids_consecutive:
  "map packet_id (fst (build_all PacketBuilder_init reqs)) = map (\<lambda>i. 1 + int i) [0..<length reqs] \<and>
   sorted_wrt (<) (map packet_id (fst (build_all PacketBuilder_init reqs))) \<and>
   distinct (map packet_id (fst (build_all PacketBuilder_init reqs))) \<and>
   fst (session_requests bson_enc transport (connected_client w) evs)
     = fst (build_all PacketBuilder_init (commands evs)) \<and>
   map packet_id (fst (session_requests bson_enc transport (connected_client w) evs))
     = map (\<lambda>i. 1 + int i) [0..<length (commands evs)] \<and>
   sorted_wrt (<) (map packet_id (fst (session_requests bson_enc transport (connected_client w) evs))) \<and>
   distinct (map packet_id (fst (session_requests bson_enc transport (connected_client w) evs))) \<and>
   packet_id booking_packet = 1 \<and>
   packet_id (checkin_packet user_id) = 1"
proof -
  have ids: "map packet_id (fst (build_all PacketBuilder_init reqs)) =
             map (\<lambda>i. 1 + int i) [0..<length reqs]"
    using build_all_ids [of PacketBuilder_init reqs] by (simp add: PacketBuilder_init_def)
  have shared: "fst (session_requests bson_enc transport (connected_client w) evs)
     = fst (build_all PacketBuilder_init (commands evs))"
    by (simp add: session_requests_build_all connected_client_def)
  have one: "packet_id booking_packet = 1" "packet_id (checkin_packet user_id) = 1"
    by (simp_all add: booking_packet_def checkin_packet_def build_def PacketBuilder_init_def)
  have ids': "map packet_id (fst (session_requests bson_enc transport (connected_client w) evs))
     = map (\<lambda>i. 1 + int i) [0..<length (commands evs)]"
    by (rule session_ids)
  have sd: "sorted_wrt (<) (map packet_id (fst (build_all PacketBuilder_init reqs)))"
    "distinct (map packet_id (fst (build_all PacketBuilder_init reqs)))"
    using consecutive_sorted_distinct [of "length reqs"] by (simp_all only: ids)
  have sd': "sorted_wrt (<)
      (map packet_id (fst (session_requests bson_enc transport (connected_client w) evs)))"
    "distinct (map packet_id (fst (session_requests bson_enc transport (connected_client w) evs)))"
    using consecutive_sorted_distinct [of "length (commands evs)"] by (simp_all only: ids')
  from ids sd shared ids' sd' one show ?thesis by blast
qed

text \<open>On a concrete session: four commands among replies, a push and a timeout.\<close>

theorem builder_ids_consecutive_witness:
  "map packet_id (fst (session_requests empty_doc_enc Inr (connected_client ()) busy_session))
     = [1, 2, 3, 4]"
proof -
  have n: "commands busy_session =
     [(''LOGINLIST'', Some []), (''LCHATLIST'', None),
      (''WRITE'', Some [(''msg'', BStr ''hello'')]), (''PING'', None)]"
    by (simp add: busy_session_def)
  have ev: "map (\<lambda>i. 1 + int i) [0..<length (commands busy_session)] = [1, 2, 3, 4]"
    by (simp add: n upt_rec)
  from builder_ids_consecutive [where bson_enc = empty_doc_enc and transport = Inr
      and w = "()" and evs = busy_session and reqs = "[]" and user_id = 0]
  have "map packet_id (fst (session_requests empty_doc_enc Inr (connected_client ()) busy_session))
     = map (\<lambda>i. 1 + int i) [0..<length (commands busy_session)]"
    by blast
  then show ?thesis by (simp only: ev)
qed

text \<open>The claim as stated fails: the discovery request, the assignment request and the
  first session request of one client all carry id 1.\<close>

theorem full_connect_ids_repeat:
  "full_connect_request_ids 12345 [] = [1, 1, 1] \<and>
   \<not> distinct (full_connect_request_ids 12345 [])"
proof -
  have "map packet_id
       (fst (session_requests empty_doc_enc Inr (connected_client ())
          [SendCommand ''LOGINLIST'' (Some [])])) = [1]"
    by (simp only: session_ids) simp
  then show ?thesis
    by (simp add: full_connect_request_ids_def booking_packet_def checkin_packet_def
        build_def PacketBuilder_init_def)
qed

section \<open>Server assignment with fallback\<close>











section \<open>Push dispatch and request timeouts\<close>











lemma wait_for_timeout_keeps_pending:
  "pending (snd (wait_for_timeout st f)) = pending st"
  by (simp add: wait_for_timeout_def split: option.split future.split)

text \<open>
  C2. Two requests, ids 1 and 2, are sent and the first one's 30 seconds pass. The caller
  gets \<open>TimeoutError\<close>, but the entry of id 1 stays in \<open>_pending\<close>, holding the future that
  \<open>wait_for\<close> cancelled. When the reply with id 1 arrives it matches that entry,
  \<open>set_result\<close> raises \<open>InvalidStateError\<close> on the cancelled future, and the receive loop's
  \<open>except Exception\<close> logs it, clears \<open>_connected\<close> and ends the loop, with request 2 still
  waiting.
\<close>

theorem late_reply_stops_receive_loop:
  "fst after_timeout = Inl TimeoutError
   \<and> pending (snd after_timeout) 1 = Some 0
   \<and> futures (snd after_timeout) 0 = Some Cancelled
   \<and> late_reply_run = receive_iteration (snd after_timeout) (Inr (request_packet 1))
   \<and> stderr late_reply_run = [ReceiveError InvalidStateError]
   \<and> connected late_reply_run = False
   \<and> receive_done late_reply_run
   \<and> pending late_reply_run 2 = Some 1
   \<and> futures late_reply_run 1 = Some Pending"
  by (simp add: after_timeout_def late_reply_run_def send_packet_begin_def
      wait_for_timeout_def receive_iteration_def stop_loop_def connected_client_def
      request_packet_def)

section \<open>The secure channel\<close>

lemma length_urandom [simp]: "length (fst (urandom n src)) = n"
  by (simp add: urandom_def)

lemma length_xor_bytes [simp]: "length (xor_bytes xs ks) = min (length xs) (length ks)"
  by (simp add: xor_bytes_def)

lemma xor_bytes_cancel:
  "length xs \<le> length ks \<Longrightarrow> xor_bytes (xor_bytes xs ks) ks = xs"
proof (induction xs arbitrary: ks)
  case Nil
  show ?case by (simp add: xor_bytes_def)
next
  case (Cons x xs)
  then obtain k ks' where ks: "ks = k # ks'" by (cases ks) auto
  with Cons.prems have "length xs \<le> length ks'" by simp
  from Cons.IH [OF this] have "xor_bytes (xor_bytes xs ks') ks' = xs" .
  moreover have "(x XOR k) XOR k = x" by (simp add: xor.assoc)
  ultimately show ?case using ks by (simp add: xor_bytes_def)
qed

lemma length_cfb_encrypt:
  "(\<And>x. length (E x) = 16) \<Longrightarrow> length (cfb_encrypt E reg m) = length m"
proof (induction E reg m rule: cfb_encrypt.induct)
  case (1 E reg m)
  show ?case
  proof (cases "m = []")
    case True
    then show ?thesis by (simp add: cfb_encrypt.simps)
  next
    case False
    have "length (cfb_encrypt E (xor_bytes (take 16 m) (E reg)) (drop 16 m)) = length (drop 16 m)"
      using "1.IH" [OF False refl "1.prems"] .
    with False show ?thesis
      by (subst cfb_encrypt.simps) (simp add: Let_def "1.prems")
  qed
qed

lemma cfb_decrypt_unfold:
  "c \<noteq> [] \<Longrightarrow>
   cfb_decrypt E reg c = xor_bytes (take 16 c) (E reg) @ cfb_decrypt E (take 16 c) (drop 16 c)"
  by (subst cfb_decrypt.simps) simp

lemma cfb_roundtrip:
  "(\<And>x. length (E x) = 16) \<Longrightarrow> cfb_decrypt E reg (cfb_encrypt E reg m) = m"
proof (induction E reg m rule: cfb_encrypt.induct)
  case (1 E reg m)
  show ?case
  proof (cases "m = []")
    case True
    then show ?thesis by (simp add: cfb_encrypt.simps cfb_decrypt.simps)
  next
    case False
    define c where "c = xor_bytes (take 16 m) (E reg)"
    define r where "r = cfb_encrypt E c (drop 16 m)"
    have enc: "cfb_encrypt E reg m = c @ r"
      using False by (subst cfb_encrypt.simps) (simp add: Let_def c_def r_def)
    have lc: "length c = min (length m) 16"
      by (simp add: c_def "1.prems")
    have lr: "length r = length m - 16"
      by (simp add: r_def length_cfb_encrypt "1.prems")
    have IH: "cfb_decrypt E c r = drop 16 m"
      unfolding c_def r_def using "1.IH" [OF False refl "1.prems"] .
    have r_nil: "r = []" if "length m < 16" using lr that by simp
    have tk: "take 16 (c @ r) = c" using lc r_nil by (cases "length m < 16") simp_all
    have dr: "drop 16 (c @ r) = r" using lc r_nil by (cases "length m < 16") simp_all
    have ne: "c @ r \<noteq> []" using False lc by (cases m) auto
    have unmask: "xor_bytes c (E reg) = take 16 m"
      unfolding c_def by (rule xor_bytes_cancel) (simp add: "1.prems")
    have "cfb_decrypt E reg (c @ r) = xor_bytes c (E reg) @ cfb_decrypt E c r"
      using cfb_decrypt_unfold [OF ne, of E reg] by (simp only: tk dr)
    also have "\<dots> = take 16 m @ drop 16 m" by (simp only: unmask IH)
    finally show ?thesis by (simp add: enc)
  qed
qed

lemma pack_I_size:
  "n < 2 ^ 32 \<Longrightarrow> pack_I (int n) = Inr (le_bytes 4 n)"
  by (simp add: pack_I_def)

lemma pack_I_too_big:
  "2 ^ 32 \<le> n \<Longrightarrow> pack_I (int n) = Inl StructError"
  by (simp add: pack_I_def)

lemma encrypt_frame:
  assumes E: "\<And>x. length (E (aes_key enc) x) = 16"
    and key: "length (aes_key enc) = 16"
    and small: "length m + 16 < 2 ^ 32"
  shows "fst (encrypt E enc src m) =
     Inr (le_bytes 4 (16 + length m) @ fst (urandom 16 src) @
          cfb_encrypt (E (aes_key enc)) (fst (urandom 16 src)) m)"
proof -
  have "16 + length m < 2 ^ 32" using small by simp
  from pack_I_size [OF this] show ?thesis
    by (simp add: encrypt_def urandom_def cfb_params_ok_def key Let_def length_cfb_encrypt E)
qed

lemma encrypt_too_big:
  assumes E: "\<And>x. length (E (aes_key enc) x) = 16"
    and key: "length (aes_key enc) = 16"
    and big: "2 ^ 32 \<le> length m + 16"
  shows "fst (encrypt E enc src m) = Inl StructError"
proof -
  have "2 ^ 32 \<le> 16 + length m" using big by simp
  from pack_I_too_big [OF this] show ?thesis
    by (simp add: encrypt_def urandom_def cfb_params_ok_def key Let_def length_cfb_encrypt E)
qed

lemma length_toy_cipher [simp]: "length (toy_cipher k x) = 16"
  by (simp add: toy_cipher_def)

lemma decrypt_frame_body:
  assumes E: "\<And>x. length (E (aes_key enc) x) = 16"
    and key: "length (aes_key enc) = 16"
    and iv: "length iv = 16" and s: "length s = 4"
  shows "decrypt E enc (drop 4 (s @ iv @ cfb_encrypt (E (aes_key enc)) iv m)) = Inr m"
  using key iv s by (simp add: decrypt_def cfb_params_ok_def Let_def cfb_roundtrip E)

lemma snd_encrypt: "snd (encrypt E enc src m) = snd (urandom 16 src)"
  by (simp add: encrypt_def split: prod.split)

lemma session_start_key: "length (aes_key (fst session_start)) = 16"
  by (simp add: session_start_def LocoEncryptor_init_def urandom_def)

lemma length_seventeen_bytes: "length seventeen_bytes = 17"
  by (simp add: seventeen_bytes_def)

lemma urandom_first: "0 < n \<Longrightarrow> fst (urandom n src) ! 0 = src 0"
  by (simp add: urandom_def)

lemma session_ivs_differ:
  "fst (urandom 16 (snd (urandom 16 (snd session_start)))) \<noteq> fst (urandom 16 (snd session_start))"
proof
  assume "fst (urandom 16 (snd (urandom 16 (snd session_start)))) = fst (urandom 16 (snd session_start))"
  then have "fst (urandom 16 (snd (urandom 16 (snd session_start)))) ! 0
      = fst (urandom 16 (snd session_start)) ! 0" by (rule arg_cong)
  then have "snd (urandom 16 (snd session_start)) 0 = snd session_start 0"
    by (simp only: urandom_first [of 16, simplified])
  then show False
    by (simp add: urandom_def session_start_def LocoEncryptor_init_def counting_entropy_def)
qed

text \<open>
  C10. With a block cipher that returns 16-byte blocks and a 16-byte key, \<open>encrypt\<close> of a
  message \<open>m\<close> shorter than \<open>2^32 - 16\<close> bytes returns the frame: the size field, the IV and
  a ciphertext of exactly \<open>len(m)\<close> bytes, whatever \<open>len(m)\<close> is modulo 16; the size field
  holds \<open>16 + len(m)\<close> and the frame has \<open>20 + len(m)\<close> bytes.
\<close>

theorem encrypt_preserves_length:
  assumes "\<And>x. length (E (aes_key enc) x) = 16"
    and "length (aes_key enc) = 16"
    and "length m + 16 < 2 ^ 32"
  shows "fst (encrypt E enc src m) =
       Inr (le_bytes 4 (16 + length m) @ fst (urandom 16 src) @
            cfb_encrypt (E (aes_key enc)) (fst (urandom 16 src)) m)
    \<and> length (cfb_encrypt (E (aes_key enc)) (fst (urandom 16 src)) m) = length m
    \<and> le_nat (le_bytes 4 (16 + length m)) = 16 + length m
    \<and> length (le_bytes 4 (16 + length m) @ fst (urandom 16 src) @
            cfb_encrypt (E (aes_key enc)) (fst (urandom 16 src)) m) = 20 + length m"
proof (intro conjI)
  show "fst (encrypt E enc src m) =
       Inr (le_bytes 4 (16 + length m) @ fst (urandom 16 src) @
            cfb_encrypt (E (aes_key enc)) (fst (urandom 16 src)) m)"
    using assms by (rule encrypt_frame)
  show len: "length (cfb_encrypt (E (aes_key enc)) (fst (urandom 16 src)) m) = length m"
    using assms(1) by (rule length_cfb_encrypt)
  have "16 + length m < 256 ^ 4" using assms(3) by simp
  then show "le_nat (le_bytes 4 (16 + length m)) = 16 + length m"
    by (rule le_nat_le_bytes)
  show "length (le_bytes 4 (16 + length m) @ fst (urandom 16 src) @
            cfb_encrypt (E (aes_key enc)) (fst (urandom 16 src)) m) = 20 + length m"
    by (simp add: len)
qed

theorem encrypt_preserves_length_witness:
  "fst (encrypt toy_cipher (fst session_start) (snd session_start) seventeen_bytes) =
       Inr (le_bytes 4 33 @ fst (urandom 16 (snd session_start)) @
            cfb_encrypt (toy_cipher (aes_key (fst session_start)))
              (fst (urandom 16 (snd session_start))) seventeen_bytes)
    \<and> length (cfb_encrypt (toy_cipher (aes_key (fst session_start)))
              (fst (urandom 16 (snd session_start))) seventeen_bytes) = 17
    \<and> le_nat (le_bytes 4 33) = 33"
  using encrypt_preserves_length [where E = toy_cipher and enc = "fst session_start"
      and src = "snd session_start" and m = seventeen_bytes, OF length_toy_cipher session_start_key]
  by (simp add: length_seventeen_bytes)

theorem encrypt_over_4GiB_raises:
  "fst (encrypt toy_cipher (fst session_start) (snd session_start) plaintext_over_4GiB)
     = Inl StructError"
  by (rule encrypt_too_big [OF length_toy_cipher session_start_key])
    (simp add: plaintext_over_4GiB_def)

text \<open>
  C6. Under the same conditions, decrypting the part of the frame after the size field
  gives the message back. The frame is the size \<open>16 + len(ciphertext)\<close> as a little-endian
  u32, the 16-byte IV and the ciphertext. Every call takes the next 16 bytes of
  \<open>os.urandom\<close> as its IV, and two calls on the same message give the same frame exactly
  when they drew the same IV.
\<close>

theorem secure_frame_roundtrip:
  assumes "\<And>x. length (E (aes_key enc) x) = 16"
    and "length (aes_key enc) = 16"
    and "length m + 16 < 2 ^ 32"
  shows "and_then (fst (encrypt E enc src m)) (\<lambda>frame. decrypt E enc (drop 4 frame)) = Inr m
    \<and> fst (encrypt E enc src m) =
       Inr (le_bytes 4 (16 + length (cfb_encrypt (E (aes_key enc)) (fst (urandom 16 src)) m)) @
            fst (urandom 16 src) @ cfb_encrypt (E (aes_key enc)) (fst (urandom 16 src)) m)
    \<and> length (fst (urandom 16 src)) = 16
    \<and> snd (encrypt E enc src m) = snd (urandom 16 src)
    \<and> (fst (encrypt E enc (snd (encrypt E enc src m)) m) = fst (encrypt E enc src m)
        \<longleftrightarrow> fst (urandom 16 (snd (urandom 16 src))) = fst (urandom 16 src))"
proof (intro conjI)
  have frame: "fst (encrypt E enc s m) =
       Inr (le_bytes 4 (16 + length m) @ fst (urandom 16 s) @
            cfb_encrypt (E (aes_key enc)) (fst (urandom 16 s)) m)" for s
    using assms by (rule encrypt_frame)
  have len: "length (cfb_encrypt (E (aes_key enc)) iv m) = length m" for iv
    using assms(1) by (rule length_cfb_encrypt)
  have "decrypt E enc (drop 4 (le_bytes 4 (16 + length m) @ fst (urandom 16 src) @
            cfb_encrypt (E (aes_key enc)) (fst (urandom 16 src)) m)) = Inr m"
    using assms(1,2) by (rule decrypt_frame_body) simp_all
  then show "and_then (fst (encrypt E enc src m)) (\<lambda>frame. decrypt E enc (drop 4 frame)) = Inr m"
    by (simp only: frame and_then_Inr)
  show "fst (encrypt E enc src m) =
       Inr (le_bytes 4 (16 + length (cfb_encrypt (E (aes_key enc)) (fst (urandom 16 src)) m)) @
            fst (urandom 16 src) @ cfb_encrypt (E (aes_key enc)) (fst (urandom 16 src)) m)"
    by (simp only: frame len)
  show "length (fst (urandom 16 src)) = 16" by simp
  show "snd (encrypt E enc src m) = snd (urandom 16 src)" by (rule snd_encrypt)
  show "fst (encrypt E enc (snd (encrypt E enc src m)) m) = fst (encrypt E enc src m)
        \<longleftrightarrow> fst (urandom 16 (snd (urandom 16 src))) = fst (urandom 16 src)"
    by (auto simp add: frame snd_encrypt)
qed

theorem secure_frame_roundtrip_witness:
  "and_then (fst (encrypt toy_cipher (fst session_start) (snd session_start) seventeen_bytes))
       (\<lambda>frame. decrypt toy_cipher (fst session_start) (drop 4 frame)) = Inr seventeen_bytes
   \<and> fst (encrypt toy_cipher (fst session_start)
            (snd (encrypt toy_cipher (fst session_start) (snd session_start) seventeen_bytes))
            seventeen_bytes)
       \<noteq> fst (encrypt toy_cipher (fst session_start) (snd session_start) seventeen_bytes)"
proof -
  have small: "length seventeen_bytes + 16 < 2 ^ 32"
    by (simp add: length_seventeen_bytes)
  note run = secure_frame_roundtrip [where E = toy_cipher and enc = "fst session_start"
      and src = "snd session_start" and m = seventeen_bytes,
      OF length_toy_cipher session_start_key small]
  from run have
    "and_then (fst (encrypt toy_cipher (fst session_start) (snd session_start) seventeen_bytes))
       (\<lambda>frame. decrypt toy_cipher (fst session_start) (drop 4 frame)) = Inr seventeen_bytes"
    by (rule conjunct1)
  moreover from run session_ivs_differ have
    "fst (encrypt toy_cipher (fst session_start)
            (snd (encrypt toy_cipher (fst session_start) (snd session_start) seventeen_bytes))
            seventeen_bytes)
       \<noteq> fst (encrypt toy_cipher (fst session_start) (snd session_start) seventeen_bytes)"
    by blast
  ultimately show ?thesis by (rule conjI)
qed

theorem encrypt_4GiB_raises:
  "and_then (fst (encrypt toy_cipher (fst session_start) (snd session_start) plaintext_4GiB))
       (\<lambda>frame. decrypt toy_cipher (fst session_start) (drop 4 frame)) = Inl StructError"
proof -
  have "fst (encrypt toy_cipher (fst session_start) (snd session_start) plaintext_4GiB)
     = Inl StructError"
    by (rule encrypt_too_big [OF length_toy_cipher session_start_key])
      (simp add: plaintext_4GiB_def)
  then show ?thesis by (simp only: and_then_Inl)
qed

end
